theory Spec2Isabelle
  imports Main "HOL-Library.FSet"
begin

section \<open>The Firestore store\<close>

text \<open>
  A date field of a document as \<open>adminDb\<close> hands it over: absent, a
  \<open>Timestamp\<close> of the admin SDK (given by the ISO string of its instant), a
  value that \<open>new Date\<close> reads (given by the ISO string it yields), or a value
  that \<open>new Date\<close> cannot read.
\<close>

datatype stored_date = Absent | AdminTimestamp string | Readable string | Unreadable

text \<open>
  An event document as Firestore holds it. Firestore has no schema, so every field
  the registration code reads may be absent. The numeric fields are integers (the
  event schema declares them \<open>z.number().int()\<close>). Fields that the registration
  code only copies (title, location, ...) are not modelled.
\<close>

record event_doc =
  capacity :: "int option"
  registeredCount :: "int option"
  status :: "string option"
  date :: stored_date
  createdAt :: stored_date

text \<open>
  The store: the collection \<open>events\<close>, keyed by document id, and the documents
  of the sub-collections \<open>events/{eventId}/registrations/{userId}\<close>, kept as the
  finite set of their keys (the marker's own fields \<open>userId\<close> and
  \<open>registeredAt\<close> are never read).
\<close>

record store =
  events :: "string \<rightharpoonup> event_doc"
  registrations :: "(string \<times> string) fset"

text \<open>A thrown JavaScript \<open>Error\<close> with its message.\<close>

datatype js_error = Error string

text \<open>The \<open>Event\<close> value handed back to callers: the document id and its data.\<close>

type_synonym event = "string \<times> event_doc"

text \<open>\<open>x || 0\<close> on a numeric field: absent and \<open>0\<close> are both falsy.\<close>

definition or0 :: "int option \<Rightarrow> int" where
  "or0 x = (case x of None \<Rightarrow> 0 | Some n \<Rightarrow> if n = 0 then 0 else n)"

text \<open>\<open>x ?? 0\<close> on a numeric field: only an absent field is replaced.\<close>

definition nullish0 :: "int option \<Rightarrow> int" where
  "nullish0 x = (case x of None \<Rightarrow> 0 | Some n \<Rightarrow> n)"

text \<open>
  \<open>currentCount >= data.capacity\<close> where \<open>capacity\<close> may be \<open>undefined\<close>:
  a comparison with \<open>undefined\<close> is false in JavaScript.
\<close>

definition ge_field :: "int \<Rightarrow> int option \<Rightarrow> bool" where
  "ge_field n x = (case x of None \<Rightarrow> False | Some c \<Rightarrow> n \<ge> c)"

section \<open>registerForEvent, first definition (firestore.ts, lines 110-164)\<close>

text \<open>
  Lines 159-160: \<open>v instanceof Timestamp ? v.toDate().toISOString() :
  new Date(v).toISOString()\<close>. Here \<open>Timestamp\<close> is the class of the client SDK
  (imported at line 4) while the data come from the admin SDK, so the test is
  false for every stored value. \<open>new Date\<close> of an absent field, of an admin
  \<open>Timestamp\<close> or of an unreadable value is an invalid date, and \<open>toISOString\<close>
  of an invalid date throws a \<open>RangeError\<close>.
\<close>

definition toISOString :: "stored_date \<Rightarrow> js_error + string" where
  "toISOString v =
     (case v of
        Readable isoString \<Rightarrow> Inr isoString
      | _ \<Rightarrow> Inl (Error ''Invalid time value''))"

text \<open>The error of \<open>.doc(userId)\<close> at line 112, which refuses the empty id.\<close>

definition msg_path :: string where
  "msg_path = ''Value for argument documentPath is not a valid resource path. ''
              @ ''Path must be a non-empty string.''"

text \<open>
  The function, with the transaction body run on its own (one transaction at a
  time). A \<open>throw\<close> inside the body aborts the transaction, so the store is
  returned as it was; this includes the \<open>RangeError\<close> of the date conversion,
  which is evaluated for the returned value after \<open>t.set\<close> and \<open>t.update\<close>
  were called. Otherwise the two writes (the marker, the counter) are committed
  together. The \<open>updatedAt\<close> of the returned value is not modelled.
\<close>

definition registerForEvent ::
  "store \<Rightarrow> string \<Rightarrow> string \<Rightarrow> (js_error + event) \<times> store" where
  "registerForEvent s eventId userId =
     (if userId = [] then (Inl (Error msg_path), s)
      else
        (case events s eventId of
           None \<Rightarrow> (Inl (Error ''Evento no encontrado''), s)
         | Some data \<Rightarrow>
             if (eventId, userId) |\<in>| registrations s
             then (Inl (Error ''UserAlreadyRegistered''), s)
             else
               let currentCount = or0 (registeredCount data);
                   capacity' = or0 (capacity data)
               in if currentCount \<ge> capacity'
                  then (Inl (Error ''EventFull''), s)
                  else
                    let newCount = currentCount + 1
                    in (case toISOString (date data) of
                          Inl error \<Rightarrow> (Inl error, s)
                        | Inr date' \<Rightarrow>
                            (case toISOString (createdAt data) of
                               Inl error \<Rightarrow> (Inl error, s)
                             | Inr createdAt' \<Rightarrow>
                                 (Inr (eventId,
                                       data\<lparr>registeredCount := Some newCount,
                                            date := Readable date',
                                            createdAt := Readable createdAt'\<rparr>),
                                  s\<lparr>registrations :=
                                      finsert (eventId, userId) (registrations s),
                                    events := (events s)(eventId \<mapsto>
                                      data\<lparr>registeredCount := Some newCount\<rparr>)\<rparr>)))))"

section \<open>registerForEvent, second definition (firestore.ts, lines 363-405)\<close>

text \<open>
  \<open>docToEvent\<close> tests against the \<open>Timestamp\<close> of the admin SDK: a stored
  timestamp becomes its ISO string, any other value is passed on.
\<close>

definition fromTimestamp :: "stored_date \<Rightarrow> stored_date" where
  "fromTimestamp v = (case v of AdminTimestamp isoString \<Rightarrow> Readable isoString | _ \<Rightarrow> v)"

definition docToEvent :: "string \<Rightarrow> event_doc \<Rightarrow> event" where
  "docToEvent docId data =
     (docId, data\<lparr>registeredCount := Some (nullish0 (registeredCount data)),
                  date := fromTimestamp (date data),
                  createdAt := fromTimestamp (createdAt data)\<rparr>)"

text \<open>
  The second definition of the same name takes the user id as an optional,
  unused parameter (\<open>_userId?\<close>), keeps no marker, and reports every failure as
  \<open>null\<close>. Its write of \<open>updatedAt\<close> is not modelled.
\<close>

definition registerForEvent2 ::
  "store \<Rightarrow> string \<Rightarrow> string option \<Rightarrow> event option \<times> store" where
  "registerForEvent2 s eventId userId_unused =
     (case events s eventId of
        None \<Rightarrow> (None, s)
      | Some data \<Rightarrow>
          let currentCount = nullish0 (registeredCount data)
          in if ge_field currentCount (capacity data) then (None, s)
             else if status data \<noteq> Some ''publicado'' then (None, s)
             else
               (Some (docToEvent eventId
                        (data\<lparr>registeredCount := Some (currentCount + 1)\<rparr>)),
                s\<lparr>events := (events s)(eventId \<mapsto>
                             data\<lparr>registeredCount := Some (currentCount + 1)\<rparr>)\<rparr>))"

section \<open>Sequences of calls\<close>

text \<open>
  A sequence of \<open>register(eventId, userId)\<close> calls, each transaction run to its
  end before the next starts. The result is the list of outcomes and the store
  after the last call.
\<close>

fun register_all ::
  "store \<Rightarrow> (string \<times> string) list \<Rightarrow> (js_error + event) list \<times> store" where
  "register_all s [] = ([], s)"
| "register_all s (c # cs) =
     (case registerForEvent s (fst c) (snd c) of
        (r, s') \<Rightarrow> (case register_all s' cs of (rs, s'') \<Rightarrow> (r # rs, s'')))"

fun register_all2 ::
  "store \<Rightarrow> (string \<times> string) list \<Rightarrow> event option list \<times> store" where
  "register_all2 s [] = ([], s)"
| "register_all2 s (c # cs) =
     (case registerForEvent2 s (fst c) (Some (snd c)) of
        (r, s') \<Rightarrow> (case register_all2 s' cs of (rs, s'') \<Rightarrow> (r # rs, s'')))"

text \<open>How many of the calls on event \<open>e\<close> succeeded.\<close>

definition succeeded :: "string \<Rightarrow> (string \<times> string) list \<Rightarrow> (js_error + event) list \<Rightarrow> nat" where
  "succeeded e cs rs = length (filter (\<lambda>(c, r). fst c = e \<and> \<not> isl r) (zip cs rs))"

definition succeeded2 :: "string \<Rightarrow> (string \<times> string) list \<Rightarrow> event option list \<Rightarrow> nat" where
  "succeeded2 e cs rs = length (filter (\<lambda>(c, r). fst c = e \<and> r \<noteq> None) (zip cs rs))"

text \<open>How many of the calls \<open>c = (eventId, userId)\<close> succeeded.\<close>

definition succeeded_by ::
  "string \<times> string \<Rightarrow> (string \<times> string) list \<Rightarrow> (js_error + event) list \<Rightarrow> nat" where
  "succeeded_by c cs rs = length (filter (\<lambda>(c', r). c' = c \<and> \<not> isl r) (zip cs rs))"

text \<open>The stored count of an event as the code reads it, and its markers.\<close>

definition count_of :: "store \<Rightarrow> string \<Rightarrow> int" where
  "count_of s e = (case events s e of None \<Rightarrow> 0 | Some d \<Rightarrow> or0 (registeredCount d))"

definition markers_of :: "store \<Rightarrow> string \<Rightarrow> (string \<times> string) fset" where
  "markers_of s e = ffilter (\<lambda>p. fst p = e) (registrations s)"

text \<open>
  The data-model bound of one event: it exists, its capacity is \<open>C\<close>, and
  \<open>0 \<le> registeredCount \<le> C\<close>.
\<close>

definition within_capacity :: "store \<Rightarrow> string \<Rightarrow> int \<Rightarrow> bool" where
  "within_capacity s e C =
     (case events s e of
        None \<Rightarrow> False
      | Some d \<Rightarrow> capacity d = Some C \<and> 0 \<le> or0 (registeredCount d)
                  \<and> or0 (registeredCount d) \<le> C)"

text \<open>The marker invariant of one event: as many markers as the stored count.\<close>

definition markers_match :: "store \<Rightarrow> string \<Rightarrow> bool" where
  "markers_match s e = (int (fcard (markers_of s e)) = count_of s e)"

section \<open>The data layer wrapper (data/events.ts, registerForEvent)\<close>

text \<open>\<open>!x\<close> on an optional string: \<open>undefined\<close> and the empty string are falsy.\<close>

definition falsy :: "string option \<Rightarrow> bool" where
  "falsy x = (case x of None \<Rightarrow> True | Some t \<Rightarrow> t = [])"

text \<open>
  Characters outside ASCII in the source's messages are written by their code
  unit: \<open>0xE1\<close> a-acute, \<open>0xF3\<close> o-acute, \<open>0xA1\<close> inverted exclamation mark.
\<close>

definition msg_already :: string where
  "msg_already = ''Ya est'' @ [CHR 0xE1] @ ''s registrado en este evento''"

definition msg_full :: string where
  "msg_full = ''El evento est'' @ [CHR 0xE1] @ '' lleno''"

text \<open>
  The server action imports this function as \<open>registerInDb\<close>. It throws when
  \<open>!userId\<close> (the id is \<open>undefined\<close> or empty), translates two of the
  transaction's errors and turns every other one into \<open>null\<close>
  (\<open>console.error\<close> is not modelled).
\<close>

definition registerInDb ::
  "store \<Rightarrow> string \<Rightarrow> string option \<Rightarrow> (js_error + event option) \<times> store" where
  "registerInDb s ident userId =
     (case userId of
        None \<Rightarrow> (Inl (Error ''User ID required for registration''), s)
      | Some uid \<Rightarrow>
          if uid = [] then (Inl (Error ''User ID required for registration''), s)
          else
            (case registerForEvent s ident uid of
               (Inr ev, s') \<Rightarrow> (Inr (Some ev), s')
             | (Inl (Error m), s') \<Rightarrow>
                 if m = ''UserAlreadyRegistered'' then (Inl (Error msg_already), s')
                 else if m = ''EventFull'' then (Inl (Error msg_full), s')
                 else (Inr None, s')))"

section \<open>The server action (eventActions.ts)\<close>

record form_state =
  success :: bool
  message :: string
  errors :: "(string \<times> string list) list option"
  payload :: "event option"

text \<open>
  The field \<open>data\<close> of \<open>FormState\<close> is named \<open>payload\<close> here. What the action
  reads from its surroundings: the value of the cookie \<open>firebase-auth-token\<close>
  and the outcome of \<open>adminAuth.verifyIdToken\<close> (rejection, or the uid of the
  decoded token).
\<close>

record auth_env =
  cookie :: "string option"
  verifyIdToken :: "string \<Rightarrow> js_error + string"

definition validateAuth :: "auth_env \<Rightarrow> string option \<Rightarrow> string option" where
  "validateAuth env idToken =
     (if falsy idToken then
        (case cookie env of
           None \<Rightarrow> None
         | Some tokenFromCookie \<Rightarrow>
             if tokenFromCookie = [] then None
             else (case verifyIdToken env tokenFromCookie of
                     Inl error \<Rightarrow> None
                   | Inr uid \<Rightarrow> Some uid))
      else
        (case idToken of
           None \<Rightarrow> None
         | Some tok \<Rightarrow>
             (case verifyIdToken env tok of
                Inl error \<Rightarrow> None
              | Inr uid \<Rightarrow> Some uid)))"

definition authError :: form_state where
  "authError =
     \<lparr>success = False,
      message = ''Debes iniciar sesi'' @ [CHR 0xF3] @ ''n para realizar esta acci''
                  @ [CHR 0xF3] @ ''n'',
      errors = Some [(''auth'', [''No autenticado''])],
      payload = None\<rparr>"

text \<open>
  The action's result is \<open>Inr\<close> of the returned \<open>FormState\<close>; \<open>Inl\<close> would be
  an exception that leaves the function. The \<open>try\<close> block covers the call of the
  data layer; \<open>revalidatePath\<close> is not modelled.
\<close>

definition registerForEventAction ::
  "auth_env \<Rightarrow> store \<Rightarrow> string \<Rightarrow> (js_error + form_state) \<times> store" where
  "registerForEventAction env s ident =
     (case validateAuth env None of
        None \<Rightarrow> (Inr authError, s)
      | Some uid \<Rightarrow>
          (case registerInDb s ident (Some uid) of
             (Inr None, s') \<Rightarrow>
               (Inr \<lparr>success = False,
                     message = ''No se pudo completar el registro. Intenta de nuevo.'',
                     errors = None, payload = None\<rparr>, s')
           | (Inr (Some event), s') \<Rightarrow>
               (Inr \<lparr>success = True,
                     message = [CHR 0xA1] @ ''Te has registrado correctamente!'',
                     errors = None, payload = Some event\<rparr>, s')
           | (Inl (Error m), s') \<Rightarrow>
               (Inr \<lparr>success = False,
                     message = (if m = [] then ''Error al registrarse'' else m),
                     errors = None, payload = None\<rparr>, s')))"

section \<open>The register button (RegisterButton.tsx)\<close>

text \<open>
  The component's props, and what its two hooks hold: the number of optimistic
  \<open>'register'\<close> actions applied in the running transition (\<open>useOptimistic\<close> shows
  the prop with the reducer applied for each of them, and the prop itself once
  the transition has ended), and \<open>isPending\<close> of \<open>useTransition\<close>. The browser
  console is part of the state, since the handler writes to it, and so is the
  error that \<open>useTransition\<close> throws again while rendering when the transition
  was rejected.
\<close>

record button_state =
  availableSpots :: int
  isAvailable :: bool
  optimistic :: nat
  isPending :: bool
  console :: "string list list"
  uncaught :: "js_error option"

definition reducer :: "int \<Rightarrow> int" where
  "reducer currentSpots = max 0 (currentSpots - 1)"

definition optimisticSpots :: "button_state \<Rightarrow> int" where
  "optimisticSpots b = (reducer ^^ optimistic b) (availableSpots b)"

definition showRegistered :: "button_state \<Rightarrow> bool" where
  "showRegistered b = (optimisticSpots b < availableSpots b)"

definition canRegister :: "button_state \<Rightarrow> bool" where
  "canRegister b = (isAvailable b \<and> optimisticSpots b > 0 \<and> \<not> showRegistered b)"

text \<open>What the component renders: one of its three buttons.\<close>

datatype label = Registrando | Registrarme int

datatype view =
    Registrado
  | Disabled string
  | Register bool label

definition RegisterButton :: "button_state \<Rightarrow> view" where
  "RegisterButton b =
     (if showRegistered b then Registrado
      else if \<not> canRegister b
      then Disabled (if optimisticSpots b = 0 then ''Evento Agotado'' else ''No disponible'')
      else Register (isPending b)
             (if isPending b then Registrando else Registrarme (optimisticSpots b)))"

text \<open>
  What is on the screen: the button, or the error page of the route
  (\<open>error.tsx\<close>) once an error was thrown while rendering. The error page
  shows a fixed text, with the digest when the error has one.
\<close>

datatype screen = ErrorPage js_error | Button view

definition shown :: "button_state \<Rightarrow> screen" where
  "shown b =
     (case uncaught b of
        Some error \<Rightarrow> ErrorPage error
      | None \<Rightarrow> Button (RegisterButton b))"

text \<open>
  \<open>handleRegister\<close> up to its \<open>await\<close>: the transition starts and the optimistic
  action is applied. The server action is then in flight.
\<close>

definition handleRegister :: "button_state \<Rightarrow> button_state" where
  "handleRegister b = b\<lparr>isPending := True, optimistic := Suc (optimistic b)\<rparr>"

text \<open>A click reaches the handler only through the enabled register button.\<close>

definition click :: "button_state \<Rightarrow> button_state" where
  "click b = (case RegisterButton b of Register False l \<Rightarrow> handleRegister b | _ \<Rightarrow> b)"

text \<open>
  The rest of \<open>handleRegister\<close>, once the awaited server action has settled.
  With a \<open>FormState\<close> (\<open>Inr\<close>) the handler logs the message of a failing
  result. When the call itself fails (\<open>Inl\<close>) the \<open>await\<close> throws; the
  handler has no \<open>try\<close>, so the transition is rejected, \<open>useTransition\<close>
  throws the error again while rendering, and the error page takes the place of
  the button and logs the error. In both cases the transition ends, and with it
  the optimistic state. New props reach the component only by a later render
  from the server, which is not part of this step.
\<close>

definition settle :: "js_error + form_state \<Rightarrow> button_state \<Rightarrow> button_state" where
  "settle result b =
     (case result of
        Inr r \<Rightarrow>
          b\<lparr>console :=
              (if \<not> success r then console b @ [[''Error al registrar:'', message r]]
               else console b),
            isPending := False,
            optimistic := 0\<rparr>
      | Inl error \<Rightarrow>
          b\<lparr>uncaught := Some error,
            console := console b @ [[''Error capturado:'', (case error of Error m \<Rightarrow> m)]],
            isPending := False,
            optimistic := 0\<rparr>)"

text \<open>Whether an attempt failed: a rejection, or a result with \<open>success\<close> false.\<close>

definition failed :: "js_error + form_state \<Rightarrow> bool" where
  "failed result = (case result of Inl error \<Rightarrow> True | Inr r \<Rightarrow> \<not> success r)"

section \<open>Example states\<close>

definition draft_doc :: event_doc where
  "draft_doc = \<lparr>capacity = Some 2, registeredCount = Some 0, status = Some ''borrador'',
                date = Readable ''2026-05-01T18:00:00.000Z'',
                createdAt = Readable ''2026-01-10T09:00:00.000Z''\<rparr>"

definition open_doc :: event_doc where
  "open_doc = \<lparr>capacity = Some 2, registeredCount = Some 0, status = Some ''publicado'',
               date = Readable ''2026-05-01T18:00:00.000Z'',
               createdAt = Readable ''2026-01-10T09:00:00.000Z''\<rparr>"

definition full_doc :: event_doc where
  "full_doc = \<lparr>capacity = Some 1, registeredCount = Some 1, status = Some ''publicado'',
               date = Readable ''2026-05-01T18:00:00.000Z'',
               createdAt = Readable ''2026-01-10T09:00:00.000Z''\<rparr>"

definition nocap_doc :: event_doc where
  "nocap_doc = \<lparr>capacity = None, registeredCount = None, status = Some ''publicado'',
                date = Readable ''2026-05-01T18:00:00.000Z'',
                createdAt = Readable ''2026-01-10T09:00:00.000Z''\<rparr>"

text \<open>A document without capacity whose count is negative.\<close>

definition neg_doc :: event_doc where
  "neg_doc = \<lparr>capacity = None, registeredCount = Some (- 1), status = Some ''publicado'',
              date = Readable ''2026-05-01T18:00:00.000Z'',
              createdAt = Readable ''2026-01-10T09:00:00.000Z''\<rparr>"

text \<open>A document as \<open>createEvent\<close> writes it: the dates are stored as timestamps.\<close>

definition stamped_doc :: event_doc where
  "stamped_doc = \<lparr>capacity = Some 2, registeredCount = Some 0, status = Some ''publicado'',
                  date = AdminTimestamp ''2026-05-01T18:00:00.000Z'',
                  createdAt = AdminTimestamp ''2026-01-10T09:00:00.000Z''\<rparr>"

definition demo :: store where
  "demo = \<lparr>events = [''draft'' \<mapsto> draft_doc, ''open'' \<mapsto> open_doc,
                      ''full'' \<mapsto> full_doc, ''nocap'' \<mapsto> nocap_doc,
                      ''neg'' \<mapsto> neg_doc, ''stamped'' \<mapsto> stamped_doc],
           registrations = {|(''full'', ''ana'')|}\<rparr>"

definition demo_env :: auth_env where
  "demo_env = \<lparr>cookie = Some ''token-bob'',
               verifyIdToken = (\<lambda>t. if t = ''token-bob'' then Inr ''bob''
                                     else Inl (Error ''invalid token''))\<rparr>"

definition idle3 :: button_state where
  "idle3 = \<lparr>availableSpots = 3, isAvailable = True, optimistic = 0,
            isPending = False, console = [], uncaught = None\<rparr>"

text \<open>The failing results a caller of the action can receive besides \<open>authError\<close>.\<close>

definition failure :: "string \<Rightarrow> form_state" where
  "failure m = \<lparr>success = False, message = m, errors = None, payload = None\<rparr>"

definition generic_failure :: form_state where
  "generic_failure = failure ''No se pudo completar el registro. Intenta de nuevo.''"

definition r_full :: form_state where
  "r_full = failure msg_full"

definition r_already :: form_state where
  "r_already = failure msg_already"

section \<open>One transaction: what it changes\<close>

lemma or0_eq: "or0 x = nullish0 x"
  by (simp add: or0_def nullish0_def split: option.splits)

lemma toISOString_Inr: "toISOString v = Inr t \<longleftrightarrow> v = Readable t"
  by (cases v) (simp_all add: toISOString_def)

text \<open>A call either fails and writes nothing, or commits the marker and the count.\<close>

lemma registerForEvent_shape:
  "(isl (fst (registerForEvent s e u)) \<and> snd (registerForEvent s e u) = s)
   \<or> (\<exists>d. events s e = Some d \<and> u \<noteq> [] \<and> (e, u) |\<notin>| registrations s
           \<and> or0 (registeredCount d) < or0 (capacity d)
           \<and> \<not> isl (fst (registerForEvent s e u))
           \<and> snd (registerForEvent s e u) =
               s\<lparr>registrations := finsert (e, u) (registrations s),
                 events := (events s)(e \<mapsto>
                   d\<lparr>registeredCount := Some (or0 (registeredCount d) + 1)\<rparr>)\<rparr>)"
  by (simp add: registerForEvent_def Let_def split: option.splits sum.splits)

lemma registerForEvent_other:
  "e' \<noteq> e \<Longrightarrow> events (snd (registerForEvent s e u)) e' = events s e'"
  by (simp add: registerForEvent_def Let_def split: option.splits sum.splits)

lemma registerForEvent_step:
  assumes "events s e = Some d"
  shows "\<exists>d'. events (snd (registerForEvent s e u)) e = Some d'
           \<and> capacity d' = capacity d \<and> status d' = status d
           \<and> or0 (registeredCount d') =
               or0 (registeredCount d) + (if isl (fst (registerForEvent s e u)) then 0 else 1)
           \<and> (\<not> isl (fst (registerForEvent s e u))
                \<longrightarrow> or0 (registeredCount d) < or0 (capacity d))"
  using registerForEvent_shape [of s e u] assms
  by (auto simp: or0_def)

lemma registerForEvent_success:
  assumes "\<not> isl (fst (registerForEvent s e u))"
  shows "(e, u) |\<notin>| registrations s
       \<and> registrations (snd (registerForEvent s e u)) = finsert (e, u) (registrations s)
       \<and> count_of (snd (registerForEvent s e u)) e = count_of s e + 1"
  using registerForEvent_shape [of s e u] assms
  by (auto simp: count_of_def or0_def)

lemma registerForEvent_failure:
  assumes "isl (fst (registerForEvent s e u))"
  shows "snd (registerForEvent s e u) = s"
  using registerForEvent_shape [of s e u] assms by auto

lemma marker_kept:
  "c |\<in>| registrations s \<Longrightarrow> c |\<in>| registrations (snd (registerForEvent s e u))"
  using registerForEvent_shape [of s e u] by auto

lemma registered_fails:
  "(e, u) |\<in>| registrations s \<Longrightarrow> isl (fst (registerForEvent s e u))"
  using registerForEvent_shape [of s e u] by auto

lemma registerForEvent_full:
  assumes "events s e = Some d" "or0 (capacity d) \<le> or0 (registeredCount d)"
    "(e, u) |\<notin>| registrations s" "u \<noteq> []"
  shows "registerForEvent s e u = (Inl (Error ''EventFull''), s)"
  using assms by (simp add: registerForEvent_def Let_def)

lemma registerForEvent_registers:
  assumes "events s e = Some d" "or0 (registeredCount d) < or0 (capacity d)"
    "(e, u) |\<notin>| registrations s" "u \<noteq> []"
    "date d = Readable t1" "createdAt d = Readable t2"
  shows "registerForEvent s e u =
           (Inr (e, d\<lparr>registeredCount := Some (or0 (registeredCount d) + 1)\<rparr>),
            s\<lparr>registrations := finsert (e, u) (registrations s),
              events := (events s)(e \<mapsto>
                d\<lparr>registeredCount := Some (or0 (registeredCount d) + 1)\<rparr>)\<rparr>)"
  using assms by (simp add: registerForEvent_def Let_def toISOString_def)

text \<open>
  When a date field is not readable, a call that passed every check aborts with
  the \<open>RangeError\<close> and writes nothing.
\<close>

lemma registerForEvent_unreadable:
  assumes "events s e = Some d" "or0 (registeredCount d) < or0 (capacity d)"
    "(e, u) |\<notin>| registrations s" "u \<noteq> []"
    "isl (toISOString (date d)) \<or> isl (toISOString (createdAt d))"
  shows "registerForEvent s e u = (Inl (Error ''Invalid time value''), s)"
  using assms
  by (auto simp: registerForEvent_def Let_def toISOString_def
      split: stored_date.splits sum.splits)

text \<open>
  So it is on a document whose dates are stored as timestamps, as \<open>createEvent\<close>
  writes them; the data layer turns the error into \<open>null\<close>.
\<close>

lemma stamped_event_aborts:
  "registerForEvent demo ''stamped'' ''bob'' = (Inl (Error ''Invalid time value''), demo)
   \<and> registerInDb demo ''stamped'' (Some ''bob'') = (Inr None, demo)"
  by (simp add: registerInDb_def registerForEvent_def demo_def stamped_doc_def or0_def
      Let_def toISOString_def)

lemma registerForEvent2_other:
  "e' \<noteq> e \<Longrightarrow> events (snd (registerForEvent2 s e u)) e' = events s e'"
  by (simp add: registerForEvent2_def Let_def split: option.splits)

lemma registerForEvent2_step:
  assumes "events s e = Some d"
  shows "\<exists>d'. events (snd (registerForEvent2 s e u)) e = Some d'
           \<and> capacity d' = capacity d \<and> status d' = status d
           \<and> or0 (registeredCount d') =
               or0 (registeredCount d) + (if fst (registerForEvent2 s e u) = None then 0 else 1)
           \<and> (fst (registerForEvent2 s e u) \<noteq> None
                \<longrightarrow> \<not> ge_field (or0 (registeredCount d)) (capacity d))"
  using assms
  by (simp add: registerForEvent2_def Let_def or0_eq nullish0_def split: option.splits)

section \<open>The capacity bound\<close>

lemma within_capacity_count:
  "within_capacity s e C \<Longrightarrow> 0 \<le> count_of s e \<and> count_of s e \<le> C"
  by (auto simp: within_capacity_def count_of_def split: option.splits)

lemma registerForEvent_within:
  assumes "within_capacity s e C"
  shows "within_capacity (snd (registerForEvent s e' u)) e C \<and>
         count_of (snd (registerForEvent s e' u)) e =
           count_of s e + (if e' = e \<and> \<not> isl (fst (registerForEvent s e' u)) then 1 else 0)"
proof (cases "e' = e")
  case True
  from assms obtain d where d: "events s e = Some d" "capacity d = Some C"
      "0 \<le> or0 (registeredCount d)" "or0 (registeredCount d) \<le> C"
    by (auto simp: within_capacity_def split: option.splits)
  from registerForEvent_step [OF d(1), of u] obtain d' where
    d': "events (snd (registerForEvent s e u)) e = Some d'" "capacity d' = capacity d"
      "or0 (registeredCount d') =
         or0 (registeredCount d) + (if isl (fst (registerForEvent s e u)) then 0 else 1)"
      "\<not> isl (fst (registerForEvent s e u)) \<longrightarrow> or0 (registeredCount d) < or0 (capacity d)"
    by blast
  have "or0 (capacity d) = C" using d(2) by (simp add: or0_def)
  with d d' True show ?thesis
    by (auto simp: within_capacity_def count_of_def)
next
  case False
  then show ?thesis using assms registerForEvent_other [of e e' s u]
    by (simp add: within_capacity_def count_of_def)
qed

lemma registerForEvent2_within:
  assumes "within_capacity s e C"
  shows "within_capacity (snd (registerForEvent2 s e' u)) e C \<and>
         count_of (snd (registerForEvent2 s e' u)) e =
           count_of s e + (if e' = e \<and> fst (registerForEvent2 s e' u) \<noteq> None then 1 else 0)"
proof (cases "e' = e")
  case True
  from assms obtain d where d: "events s e = Some d" "capacity d = Some C"
      "0 \<le> or0 (registeredCount d)" "or0 (registeredCount d) \<le> C"
    by (auto simp: within_capacity_def split: option.splits)
  from registerForEvent2_step [OF d(1), of u] obtain d' where
    d': "events (snd (registerForEvent2 s e u)) e = Some d'" "capacity d' = capacity d"
      "or0 (registeredCount d') =
         or0 (registeredCount d) + (if fst (registerForEvent2 s e u) = None then 0 else 1)"
      "fst (registerForEvent2 s e u) \<noteq> None
         \<longrightarrow> \<not> ge_field (or0 (registeredCount d)) (capacity d)"
    by blast
  with d True show ?thesis
    by (auto simp: within_capacity_def count_of_def ge_field_def)
next
  case False
  then show ?thesis using assms registerForEvent2_other [of e e' s u]
    by (simp add: within_capacity_def count_of_def)
qed

lemma register_all_within:
  "within_capacity s e C \<Longrightarrow>
     within_capacity (snd (register_all s cs)) e C \<and>
     count_of (snd (register_all s cs)) e =
       count_of s e + int (succeeded e cs (fst (register_all s cs)))"
proof (induction cs arbitrary: s)
  case Nil
  then show ?case by (simp add: succeeded_def)
next
  case (Cons c cs)
  obtain r s' where step: "registerForEvent s (fst c) (snd c) = (r, s')" by fastforce
  obtain rs s'' where rest: "register_all s' cs = (rs, s'')" by fastforce
  from registerForEvent_within [OF Cons.prems, of "fst c" "snd c"] step
  have w: "within_capacity s' e C"
    and k: "count_of s' e = count_of s e + (if fst c = e \<and> \<not> isl r then 1 else 0)"
    by simp_all
  from Cons.IH [OF w] rest
  have "within_capacity s'' e C" and "count_of s'' e = count_of s' e + int (succeeded e cs rs)"
    by simp_all
  with k step rest show ?case
    by (simp add: succeeded_def)
qed

lemma register_all2_within:
  "within_capacity s e C \<Longrightarrow>
     within_capacity (snd (register_all2 s cs)) e C \<and>
     count_of (snd (register_all2 s cs)) e =
       count_of s e + int (succeeded2 e cs (fst (register_all2 s cs)))"
proof (induction cs arbitrary: s)
  case Nil
  then show ?case by (simp add: succeeded2_def)
next
  case (Cons c cs)
  obtain r s' where step: "registerForEvent2 s (fst c) (Some (snd c)) = (r, s')" by fastforce
  obtain rs s'' where rest: "register_all2 s' cs = (rs, s'')" by fastforce
  from registerForEvent2_within [OF Cons.prems, of "fst c" "Some (snd c)"] step
  have w: "within_capacity s' e C"
    and k: "count_of s' e = count_of s e + (if fst c = e \<and> r \<noteq> None then 1 else 0)"
    by simp_all
  from Cons.IH [OF w] rest
  have "within_capacity s'' e C" and "count_of s'' e = count_of s' e + int (succeeded2 e cs rs)"
    by simp_all
  with k step rest show ?case
    by (simp add: succeeded2_def)
qed

text \<open>
  Claim C1. Take a store in which event \<open>e\<close> has capacity \<open>C\<close> and
  \<open>0 \<le> registeredCount \<le> C\<close>, and any sequence \<open>cs\<close> of register calls, run one
  transaction at a time. Then at most \<open>C\<close> of the calls on \<open>e\<close> succeed, and after
  every call (after each prefix \<open>take n cs\<close>) the event still has capacity \<open>C\<close> and
  \<open>0 \<le> registeredCount \<le> C\<close>. This holds for both definitions of
  \<open>registerForEvent\<close>.
\<close>

theorem capacity_never_exceeded:
  assumes "within_capacity s e C"
  shows "int (succeeded e cs (fst (register_all s cs))) \<le> C
       \<and> within_capacity (snd (register_all s (take n cs))) e C
       \<and> int (succeeded2 e cs (fst (register_all2 s cs))) \<le> C
       \<and> within_capacity (snd (register_all2 s (take n cs))) e C"
proof -
  have a: "0 \<le> count_of s e" using within_capacity_count [OF assms] by simp
  have "count_of (snd (register_all s cs)) e \<le> C"
    using register_all_within [OF assms, of cs] within_capacity_count by blast
  then have 1: "int (succeeded e cs (fst (register_all s cs))) \<le> C"
    using register_all_within [OF assms, of cs] a by linarith
  have "count_of (snd (register_all2 s cs)) e \<le> C"
    using register_all2_within [OF assms, of cs] within_capacity_count by blast
  then have 2: "int (succeeded2 e cs (fst (register_all2 s cs))) \<le> C"
    using register_all2_within [OF assms, of cs] a by linarith
  show ?thesis
    using 1 2 register_all_within [OF assms, of "take n cs"]
      register_all2_within [OF assms, of "take n cs"] by simp
qed

theorem capacity_never_exceeded_witness:
  "within_capacity demo ''open'' 2
   \<and> succeeded ''open'' [(''open'', ''ana''), (''open'', ''bob''), (''open'', ''eve'')]
        (fst (register_all demo
                [(''open'', ''ana''), (''open'', ''bob''), (''open'', ''eve'')])) = 2
   \<and> int (succeeded ''open'' [(''open'', ''ana''), (''open'', ''bob''), (''open'', ''eve'')]
        (fst (register_all demo
                [(''open'', ''ana''), (''open'', ''bob''), (''open'', ''eve'')]))) \<le> 2
   \<and> within_capacity (snd (register_all demo
        (take 3 [(''open'', ''ana''), (''open'', ''bob''), (''open'', ''eve'')]))) ''open'' 2
   \<and> int (succeeded2 ''open'' [(''open'', ''ana''), (''open'', ''bob''), (''open'', ''eve'')]
        (fst (register_all2 demo
                [(''open'', ''ana''), (''open'', ''bob''), (''open'', ''eve'')]))) \<le> 2
   \<and> within_capacity (snd (register_all2 demo
        (take 3 [(''open'', ''ana''), (''open'', ''bob''), (''open'', ''eve'')]))) ''open'' 2"
proof -
  have h: "within_capacity demo ''open'' 2"
    by (simp add: within_capacity_def demo_def open_doc_def or0_def)
  have v: "succeeded ''open'' [(''open'', ''ana''), (''open'', ''bob''), (''open'', ''eve'')]
        (fst (register_all demo
                [(''open'', ''ana''), (''open'', ''bob''), (''open'', ''eve'')])) = 2"
    by (simp add: succeeded_def registerForEvent_def demo_def open_doc_def or0_def Let_def
        toISOString_def)
  show ?thesis
    using h v capacity_never_exceeded [OF h,
        of "[(''open'', ''ana''), (''open'', ''bob''), (''open'', ''eve'')]" 3]
    by simp
qed

section \<open>Failing calls\<close>

lemma registerForEvent2_full:
  assumes "events s e = Some d" "capacity d = Some c" "c \<le> or0 (registeredCount d)"
  shows "registerForEvent2 s e u = (None, s)"
  using assms by (simp add: registerForEvent2_def Let_def ge_field_def or0_eq)

text \<open>
  Claim C5, as amended. On an event with \<open>registeredCount \<ge> capacity\<close>, any number
  of calls by users with a non-empty id and without a marker all fail and leave
  the whole store (event documents and markers) as it was. The first definition
  throws \<open>Error('EventFull')\<close> each time; the second returns \<open>null\<close>, the value it
  returns for every failure.
\<close>

theorem full_event_rejects:
  assumes "events s e = Some d" and "capacity d = Some c" and "c \<le> or0 (registeredCount d)"
    and "\<forall>u \<in> set us. u \<noteq> [] \<and> (e, u) |\<notin>| registrations s"
  shows "register_all s (map (Pair e) us) = (map (\<lambda>u. Inl (Error ''EventFull'')) us, s)
       \<and> register_all2 s (map (Pair e) us) = (map (\<lambda>u. None) us, s)"
  using assms(4)
proof (induction us)
  case Nil
  then show ?case by simp
next
  case (Cons u us)
  have c: "or0 (capacity d) \<le> or0 (registeredCount d)"
    using assms(2,3) by (simp add: or0_def)
  have "(e, u) |\<notin>| registrations s" and "u \<noteq> []" using Cons.prems by simp_all
  then have 1: "registerForEvent s e u = (Inl (Error ''EventFull''), s)"
    using registerForEvent_full [OF assms(1) c] by simp
  have 2: "registerForEvent2 s e (Some u) = (None, s)"
    using registerForEvent2_full [OF assms(1,2,3)] by simp
  from Cons 1 2 show ?case by simp
qed

theorem full_event_rejects_witness:
  "events demo ''full'' = Some full_doc \<and> capacity full_doc = Some 1
   \<and> 1 \<le> or0 (registeredCount full_doc)
   \<and> ''bob'' \<noteq> [] \<and> (''full'', ''bob'') |\<notin>| registrations demo
   \<and> ''eve'' \<noteq> [] \<and> (''full'', ''eve'') |\<notin>| registrations demo
   \<and> register_all demo (map (Pair ''full'') [''bob'', ''eve'', ''bob''])
       = ([Inl (Error ''EventFull''), Inl (Error ''EventFull''), Inl (Error ''EventFull'')],
          demo)
   \<and> register_all2 demo (map (Pair ''full'') [''bob'', ''eve'', ''bob''])
       = ([None, None, None], demo)"
proof -
  have h1: "events demo ''full'' = Some full_doc" by (simp add: demo_def)
  have h2: "capacity full_doc = Some 1" by (simp add: full_doc_def)
  have h3: "1 \<le> or0 (registeredCount full_doc)" by (simp add: full_doc_def or0_def)
  have h4: "\<forall>u \<in> set [''bob'', ''eve'', ''bob''].
              u \<noteq> [] \<and> (''full'', u) |\<notin>| registrations demo"
    by (simp add: demo_def)
  show ?thesis
    using h1 h2 h3 h4 full_event_rejects [OF h1 h2 h3 h4] by simp
qed

text \<open>
  Claim C5 as stated fails. On the full event the second definition does not
  yield \<open>EventFull\<close> but \<open>null\<close>, the same value it yields on the draft event;
  and the first definition answers the empty user id, which has no marker, with
  the error of \<open>.doc(userId)\<close>.
\<close>

theorem full_event_null_counterexample:
  "events demo ''full'' = Some full_doc
   \<and> capacity full_doc = Some 1 \<and> registeredCount full_doc = Some 1
   \<and> status draft_doc = Some ''borrador''
   \<and> fst (registerForEvent2 demo ''full'' (Some ''bob'')) = None
   \<and> fst (registerForEvent2 demo ''full'' (Some ''bob''))
       = fst (registerForEvent2 demo ''draft'' (Some ''bob''))
   \<and> (''full'', []) |\<notin>| registrations demo
   \<and> fst (registerForEvent demo ''full'' []) = Inl (Error msg_path)
   \<and> msg_path \<noteq> ''EventFull''"
  by (simp add: demo_def full_doc_def draft_doc_def registerForEvent2_def registerForEvent_def
      nullish0_def ge_field_def Let_def msg_path_def)

text \<open>
  Claim C9, as amended. In the first definition \<open>registeredCount || 0\<close> reads an
  absent or zero count as \<open>0\<close> and \<open>capacity || 0\<close> reads an absent capacity as
  \<open>0\<close>. So on a document without a capacity field whose count is absent or not
  negative, every call fails and changes nothing, creating no marker: with
  \<open>EventFull\<close> for a user with a non-empty id and without a marker, with
  \<open>UserAlreadyRegistered\<close> for a user who has a marker.
\<close>

theorem missing_capacity_is_full:
  assumes "events s e = Some d" and "capacity d = None" and "0 \<le> or0 (registeredCount d)"
  shows "or0 None = 0 \<and> or0 (Some 0) = 0
       \<and> isl (fst (registerForEvent s e u)) \<and> snd (registerForEvent s e u) = s
       \<and> (u \<noteq> [] \<and> (e, u) |\<notin>| registrations s
            \<longrightarrow> registerForEvent s e u = (Inl (Error ''EventFull''), s))
       \<and> (u \<noteq> [] \<and> (e, u) |\<in>| registrations s
            \<longrightarrow> registerForEvent s e u = (Inl (Error ''UserAlreadyRegistered''), s))"
  using assms by (simp add: registerForEvent_def Let_def or0_def)

theorem missing_capacity_is_full_witness:
  "events demo ''nocap'' = Some nocap_doc \<and> capacity nocap_doc = None
   \<and> 0 \<le> or0 (registeredCount nocap_doc)
   \<and> ''bob'' \<noteq> [] \<and> (''nocap'', ''bob'') |\<notin>| registrations demo
   \<and> registerForEvent demo ''nocap'' ''bob'' = (Inl (Error ''EventFull''), demo)"
proof -
  have h1: "events demo ''nocap'' = Some nocap_doc" by (simp add: demo_def)
  have h2: "capacity nocap_doc = None" by (simp add: nocap_doc_def)
  have h3: "0 \<le> or0 (registeredCount nocap_doc)" by (simp add: nocap_doc_def or0_def)
  have h4: "(''nocap'', ''bob'') |\<notin>| registrations demo" by (simp add: demo_def)
  show ?thesis
    using h1 h2 h3 h4 missing_capacity_is_full [OF h1 h2 h3, of "''bob''"] by simp
qed

text \<open>
  Claim C9 as stated fails. On the document without capacity whose count is
  \<open>-1\<close> the check \<open>-1 >= 0\<close> is false and the user is registered; and on the
  document without capacity a user who has a marker gets
  \<open>UserAlreadyRegistered\<close>, not \<open>EventFull\<close>.
\<close>

theorem missing_capacity_counterexample:
  "events demo ''neg'' = Some neg_doc \<and> capacity neg_doc = None
   \<and> registeredCount neg_doc = Some (- 1)
   \<and> fst (registerForEvent demo ''neg'' ''bob'')
       = Inr (''neg'', neg_doc\<lparr>registeredCount := Some 0\<rparr>)
   \<and> (''neg'', ''bob'') |\<in>| registrations (snd (registerForEvent demo ''neg'' ''bob''))
   \<and> events demo ''nocap'' = Some nocap_doc \<and> capacity nocap_doc = None
   \<and> fst (registerForEvent (demo\<lparr>registrations := {|(''nocap'', ''ana'')|}\<rparr>)
             ''nocap'' ''ana'')
       = Inl (Error ''UserAlreadyRegistered'')"
  by (simp add: demo_def neg_doc_def nocap_doc_def registerForEvent_def or0_def Let_def
      toISOString_def)

text \<open>
  Claim C4, as amended. In the second definition of \<open>registerForEvent\<close>, a call on
  an existing event whose status is not \<open>'publicado'\<close> fails, whatever capacity
  remains: it returns \<open>null\<close> and leaves the store as it was.
\<close>

theorem unpublished_rejected:
  assumes "events s e = Some d" and "status d \<noteq> Some ''publicado''"
  shows "registerForEvent2 s e u = (None, s)"
  using assms by (simp add: registerForEvent2_def Let_def)

theorem unpublished_rejected_witness:
  "events demo ''draft'' = Some draft_doc \<and> status draft_doc \<noteq> Some ''publicado''
   \<and> registerForEvent2 demo ''draft'' (Some ''bob'') = (None, demo)"
proof -
  have h1: "events demo ''draft'' = Some draft_doc" by (simp add: demo_def)
  have h2: "status draft_doc \<noteq> Some ''publicado''" by (simp add: draft_doc_def)
  show ?thesis
    using h1 h2 unpublished_rejected [OF h1 h2, of "Some ''bob''"] by simp
qed

text \<open>
  Claim C4 as stated fails on the first definition, which never reads \<open>status\<close>:
  on the draft event with two free places, a user without a marker is registered.
\<close>

theorem unpublished_accepted_counterexample:
  "events demo ''draft'' = Some draft_doc \<and> status draft_doc = Some ''borrador''
   \<and> (''draft'', ''bob'') |\<notin>| registrations demo
   \<and> fst (registerForEvent demo ''draft'' ''bob'')
       = Inr (''draft'', draft_doc\<lparr>registeredCount := Some 1\<rparr>)
   \<and> (''draft'', ''bob'') |\<in>| registrations (snd (registerForEvent demo ''draft'' ''bob''))"
  by (simp add: demo_def draft_doc_def registerForEvent_def or0_def Let_def toISOString_def)

section \<open>Registration markers\<close>

lemma ffilter_fempty: "ffilter P {||} = {||}"
  by auto

lemma ffilter_finsert:
  "ffilter P (finsert x A) = (if P x then finsert x (ffilter P A) else ffilter P A)"
  by auto

lemma count_of_other:
  "e' \<noteq> e \<Longrightarrow> count_of (snd (registerForEvent s e' u)) e = count_of s e"
  by (simp add: count_of_def registerForEvent_other)

lemma markers_of_finsert:
  "markers_of (s\<lparr>registrations := finsert (e', u) (registrations s)\<rparr>) e =
     (if e' = e then finsert (e', u) (markers_of s e) else markers_of s e)"
  by (auto simp: markers_of_def)

lemma markers_of_cong: "registrations s' = registrations s \<Longrightarrow> markers_of s' e = markers_of s e"
  by (simp add: markers_of_def)

lemma registerForEvent_markers:
  "int (fcard (markers_of (snd (registerForEvent s e' u)) e)) - count_of (snd (registerForEvent s e' u)) e
     = int (fcard (markers_of s e)) - count_of s e"
proof (cases "isl (fst (registerForEvent s e' u))")
  case True
  then show ?thesis by (simp add: registerForEvent_failure)
next
  case False
  note ok = registerForEvent_success [OF False]
  show ?thesis
  proof (cases "e' = e")
    case True
    have "(e, u) |\<notin>| markers_of s e" using ok True by (simp add: markers_of_def)
    moreover have "markers_of (snd (registerForEvent s e u)) e = finsert (e, u) (markers_of s e)"
      using ok True by (auto simp: markers_of_def)
    ultimately show ?thesis using ok True by (simp add: fcard_finsert_disjoint)
  next
    case False
    have "markers_of (snd (registerForEvent s e' u)) e = markers_of s e"
      using ok False by (auto simp: markers_of_def)
    then show ?thesis using False by (simp add: count_of_other)
  qed
qed

lemma register_all_markers:
  "int (fcard (markers_of (snd (register_all s cs)) e)) - count_of (snd (register_all s cs)) e
     = int (fcard (markers_of s e)) - count_of s e"
proof (induction cs arbitrary: s)
  case Nil
  then show ?case by simp
next
  case (Cons c cs)
  obtain r s' where step: "registerForEvent s (fst c) (snd c) = (r, s')" by fastforce
  obtain rs s'' where rest: "register_all s' cs = (rs, s'')" by fastforce
  from registerForEvent_markers [of s "fst c" "snd c" e] step
  have "int (fcard (markers_of s' e)) - count_of s' e = int (fcard (markers_of s e)) - count_of s e"
    by simp
  moreover from Cons.IH [of s'] rest
  have "int (fcard (markers_of s'' e)) - count_of s'' e = int (fcard (markers_of s' e)) - count_of s' e"
    by simp
  ultimately show ?case using step rest by simp
qed

text \<open>
  Claim C2, as amended. For the first definition of \<open>registerForEvent\<close>: if the
  number of markers of event \<open>e\<close> equals its \<open>registeredCount\<close>, it still does
  after every call of any sequence of calls; and a successful call creates exactly
  one marker, which did not exist, together with the increment by one.
\<close>

theorem markers_equal_count:
  assumes "markers_match s e"
  shows "markers_match (snd (register_all s (take n cs))) e
       \<and> (\<not> isl (fst (registerForEvent s e u)) \<longrightarrow>
            (e, u) |\<notin>| registrations s
          \<and> registrations (snd (registerForEvent s e u)) = finsert (e, u) (registrations s)
          \<and> count_of (snd (registerForEvent s e u)) e = count_of s e + 1)"
  using assms register_all_markers [of s "take n cs" e] registerForEvent_success [of s e u]
  by (simp add: markers_match_def)

theorem markers_equal_count_witness:
  "markers_match demo ''open''
   \<and> markers_match (snd (register_all demo (take 2 [(''open'', ''ana''), (''open'', ''bob'')]))) ''open''
   \<and> \<not> isl (fst (registerForEvent demo ''open'' ''ana''))
   \<and> registrations (snd (registerForEvent demo ''open'' ''ana''))
        = finsert (''open'', ''ana'') (registrations demo)
   \<and> count_of (snd (registerForEvent demo ''open'' ''ana'')) ''open'' = 1"
proof -
  have h: "markers_match demo ''open''"
    by (simp add: markers_match_def markers_of_def count_of_def demo_def open_doc_def or0_def
        ffilter_finsert ffilter_fempty fcard_fempty)
  have k: "\<not> isl (fst (registerForEvent demo ''open'' ''ana''))"
    by (simp add: registerForEvent_def demo_def open_doc_def or0_def Let_def toISOString_def)
  have c: "count_of demo ''open'' = 0"
    by (simp add: count_of_def demo_def open_doc_def or0_def)
  show ?thesis
    using h k c markers_equal_count [OF h, of 2 "[(''open'', ''ana''), (''open'', ''bob'')]" "''ana''"]
    by simp
qed

text \<open>
  Claim C2 as stated fails on the second definition, which increments the count
  and writes no marker: the event \<open>open\<close> has no marker and count 0, and after
  one successful call it has count 1 and still no marker.
\<close>

theorem markers_not_created_counterexample:
  "markers_match demo ''open''
   \<and> fst (registerForEvent2 demo ''open'' (Some ''bob'')) \<noteq> None
   \<and> count_of (snd (registerForEvent2 demo ''open'' (Some ''bob''))) ''open'' = 1
   \<and> fcard (markers_of (snd (registerForEvent2 demo ''open'' (Some ''bob''))) ''open'') = 0
   \<and> \<not> markers_match (snd (registerForEvent2 demo ''open'' (Some ''bob''))) ''open''"
  by (simp add: markers_match_def markers_of_def count_of_def demo_def open_doc_def or0_def
      registerForEvent2_def nullish0_def ge_field_def Let_def docToEvent_def
      ffilter_finsert ffilter_fempty fcard_fempty)

section \<open>Registering twice\<close>

lemma succeeded_by_registered:
  "c |\<in>| registrations s \<Longrightarrow> succeeded_by c cs (fst (register_all s cs)) = 0"
proof (induction cs arbitrary: s)
  case Nil
  then show ?case by (simp add: succeeded_by_def)
next
  case (Cons c' cs)
  obtain r s' where step: "registerForEvent s (fst c') (snd c') = (r, s')" by fastforce
  obtain rs s'' where rest: "register_all s' cs = (rs, s'')" by fastforce
  have "c |\<in>| registrations s'" using marker_kept [OF Cons.prems, of "fst c'" "snd c'"] step by simp
  from Cons.IH [OF this] rest have z: "succeeded_by c cs rs = 0" by simp
  have "c' = c \<longrightarrow> isl r"
    using registered_fails [of "fst c" "snd c" s] Cons.prems step by auto
  with z step rest show ?case by (auto simp: succeeded_by_def)
qed

lemma succeeded_by_le_1:
  "succeeded_by c cs (fst (register_all s cs)) \<le> 1"
proof (induction cs arbitrary: s)
  case Nil
  then show ?case by (simp add: succeeded_by_def)
next
  case (Cons c' cs)
  obtain r s' where step: "registerForEvent s (fst c') (snd c') = (r, s')" by fastforce
  obtain rs s'' where rest: "register_all s' cs = (rs, s'')" by fastforce
  show ?case
  proof (cases "c' = c \<and> \<not> isl r")
    case True
    then have "c |\<in>| registrations s'"
      using registerForEvent_success [of s "fst c" "snd c"] step by auto
    from succeeded_by_registered [OF this, of cs] rest have "succeeded_by c cs rs = 0" by simp
    with True step rest show ?thesis by (auto simp: succeeded_by_def)
  next
    case False
    from Cons.IH [of s'] rest have "succeeded_by c cs rs \<le> 1" by simp
    with False step rest show ?thesis by (auto simp: succeeded_by_def)
  qed
qed

text \<open>
  Claim C3, as amended. For the first definition of \<open>registerForEvent\<close>: on an
  existing event that is not full and whose \<open>date\<close> and \<open>createdAt\<close> are values
  that \<open>new Date\<close> reads, a user with a non-empty id and without a marker who
  calls twice gets one success, then \<open>UserAlreadyRegistered\<close>; and in any sequence
  of calls from any store at most one call of the same \<open>(eventId, userId)\<close>
  succeeds.
\<close>

theorem register_twice:
  assumes "events s e = Some d" and "or0 (registeredCount d) < or0 (capacity d)"
    and "(e, u) |\<notin>| registrations s" and "u \<noteq> []"
    and "date d = Readable t1" and "createdAt d = Readable t2"
  shows "(\<exists>ev s'. register_all s [(e, u), (e, u)]
                    = ([Inr ev, Inl (Error ''UserAlreadyRegistered'')], s'))
       \<and> succeeded_by (e, u) cs (fst (register_all s0 cs)) \<le> 1"
proof -
  note 1 = registerForEvent_registers [OF assms]
  define s' where "s' = snd (registerForEvent s e u)"
  have "(e, u) |\<in>| registrations s'" and "events s' e \<noteq> None"
    unfolding s'_def 1 by simp_all
  then have "registerForEvent s' e u = (Inl (Error ''UserAlreadyRegistered''), s')"
    using assms(4) by (auto simp: registerForEvent_def)
  with 1 show ?thesis using succeeded_by_le_1 [of "(e, u)" cs s0]
    by (simp add: s'_def)
qed

theorem register_twice_witness:
  "events demo ''open'' = Some open_doc
   \<and> or0 (registeredCount open_doc) < or0 (capacity open_doc)
   \<and> (''open'', ''ana'') |\<notin>| registrations demo \<and> ''ana'' \<noteq> []
   \<and> date open_doc = Readable ''2026-05-01T18:00:00.000Z''
   \<and> createdAt open_doc = Readable ''2026-01-10T09:00:00.000Z''
   \<and> fst (register_all demo [(''open'', ''ana''), (''open'', ''ana'')])
       = [Inr (''open'', open_doc\<lparr>registeredCount := Some 1\<rparr>),
          Inl (Error ''UserAlreadyRegistered'')]
   \<and> succeeded_by (''open'', ''ana'') [(''open'', ''ana''), (''open'', ''ana'')]
        (fst (register_all demo [(''open'', ''ana''), (''open'', ''ana'')])) \<le> 1"
proof -
  have h1: "events demo ''open'' = Some open_doc" by (simp add: demo_def)
  have h2: "or0 (registeredCount open_doc) < or0 (capacity open_doc)"
    by (simp add: open_doc_def or0_def)
  have h3: "(''open'', ''ana'') |\<notin>| registrations demo" by (simp add: demo_def)
  have h4: "''ana'' \<noteq> []" by simp
  have h5: "date open_doc = Readable ''2026-05-01T18:00:00.000Z''"
    and h6: "createdAt open_doc = Readable ''2026-01-10T09:00:00.000Z''"
    by (simp_all add: open_doc_def)
  have v: "fst (registerForEvent demo ''open'' ''ana'')
             = Inr (''open'', open_doc\<lparr>registeredCount := Some 1\<rparr>)"
    by (simp add: registerForEvent_def demo_def open_doc_def or0_def Let_def toISOString_def)
  show ?thesis
    using h1 h2 h3 h5 h6 v
      register_twice [OF h1 h2 h3 h4 h5 h6, of "[(''open'', ''ana''), (''open'', ''ana'')]" demo]
    by (auto split: prod.splits)
qed

text \<open>
  Claim C3 as stated fails on the second definition, which ignores the user id:
  on the published event \<open>open\<close> with two free places both calls of the same
  user succeed. With the first definition neither call succeeds on the published
  event \<open>stamped\<close>, whose dates are stored as timestamps, nor for the empty user
  id.
\<close>

theorem register_twice_counterexample:
  "events demo ''open'' = Some open_doc \<and> status open_doc = Some ''publicado''
   \<and> nullish0 (registeredCount open_doc) < 2 \<and> capacity open_doc = Some 2
   \<and> fst (register_all2 demo [(''open'', ''ana''), (''open'', ''ana'')])
       = [Some (''open'', open_doc\<lparr>registeredCount := Some 1\<rparr>),
          Some (''open'', open_doc\<lparr>registeredCount := Some 2\<rparr>)]
   \<and> events demo ''stamped'' = Some stamped_doc
   \<and> status stamped_doc = Some ''publicado''
   \<and> or0 (registeredCount stamped_doc) < or0 (capacity stamped_doc)
   \<and> register_all demo [(''stamped'', ''ana''), (''stamped'', ''ana'')]
       = ([Inl (Error ''Invalid time value''), Inl (Error ''Invalid time value'')], demo)
   \<and> register_all demo [(''open'', []), (''open'', [])]
       = ([Inl (Error msg_path), Inl (Error msg_path)], demo)"
  by (simp add: demo_def open_doc_def stamped_doc_def registerForEvent2_def
      registerForEvent_def nullish0_def or0_def ge_field_def Let_def docToEvent_def
      fromTimestamp_def toISOString_def)

section \<open>The register button\<close>

lemma optimisticSpots_settled: "optimistic b = 0 \<Longrightarrow> optimisticSpots b = availableSpots b"
  by (simp add: optimisticSpots_def)

lemma RegisterButton_Registrado: "(RegisterButton b = Registrado) = showRegistered b"
  by (simp add: RegisterButton_def)

lemma settled_not_Registrado: "optimistic b = 0 \<Longrightarrow> RegisterButton b \<noteq> Registrado"
  by (simp add: RegisterButton_Registrado showRegistered_def optimisticSpots_settled)

lemma optimistic_settle: "optimistic (settle r b) = 0"
  by (simp add: settle_def split: sum.splits)

text \<open>
  Claim C7, as amended. The view \<open>Registrado\<close> is shown as soon as the speculative
  decrement is applied, while the server call is still pending, and not after: a
  click on the enabled button of a settled component with free places shows it at
  once, with the decremented count and with \<open>isPending\<close>; it is rendered exactly
  when \<open>optimisticSpots < availableSpots\<close>, which needs an optimistic action of a
  running transition; and it is never on the screen once the call has settled.
  While only the speculative decrement has been applied the rendered state
  remains distinguishable as provisional: it is the view \<open>Registrado\<close>, which no
  settled state renders.
\<close>

theorem registrado_is_speculative:
  assumes "optimistic b = 0" and "isAvailable b" and "0 < availableSpots b"
    and "\<not> isPending b" and "uncaught b = None"
  shows "click b = handleRegister b
       \<and> optimisticSpots (click b) = max 0 (availableSpots b - 1)
       \<and> RegisterButton (click b) = Registrado
       \<and> shown (click b) = Button Registrado
       \<and> isPending (click b)
       \<and> (RegisterButton b' = Registrado \<longleftrightarrow> optimisticSpots b' < availableSpots b')
       \<and> (RegisterButton b' = Registrado \<longrightarrow> 0 < optimistic b')
       \<and> RegisterButton (settle r b') \<noteq> Registrado
       \<and> shown (settle r b') \<noteq> Button Registrado
       \<and> (optimistic b' = 0 \<longrightarrow> RegisterButton b' \<noteq> RegisterButton (click b))"
proof -
  have v: "RegisterButton b = Register False (Registrarme (availableSpots b))"
    using assms
    by (simp add: RegisterButton_def showRegistered_def canRegister_def optimisticSpots_def)
  then have c: "click b = handleRegister b" by (simp add: click_def)
  have o: "optimisticSpots (handleRegister b) = max 0 (availableSpots b - 1)"
    using assms(1) by (simp add: optimisticSpots_def handleRegister_def reducer_def)
  then have "showRegistered (handleRegister b)"
    using assms(3) by (simp add: showRegistered_def handleRegister_def)
  then have r: "RegisterButton (handleRegister b) = Registrado"
    by (simp add: RegisterButton_def)
  have sh: "shown (handleRegister b) = Button Registrado"
    using r assms(5) by (simp add: shown_def handleRegister_def)
  have p: "isPending (handleRegister b)" by (simp add: handleRegister_def)
  have e: "RegisterButton b' = Registrado \<longleftrightarrow> optimisticSpots b' < availableSpots b'"
    by (simp add: RegisterButton_Registrado showRegistered_def)
  have s: "RegisterButton b' = Registrado \<longrightarrow> 0 < optimistic b'"
    using settled_not_Registrado [of b'] by (cases "optimistic b' = 0") simp_all
  have t: "RegisterButton (settle r b') \<noteq> Registrado"
    using settled_not_Registrado [OF optimistic_settle] .
  have t': "shown (settle r b') \<noteq> Button Registrado"
    using t by (simp add: shown_def split: option.splits)
  have d: "optimistic b' = 0 \<longrightarrow> RegisterButton b' \<noteq> RegisterButton (click b)"
    using settled_not_Registrado [of b'] c r by simp
  from c o r sh p e s t t' d show ?thesis by simp
qed

theorem registrado_is_speculative_witness:
  "optimistic idle3 = 0 \<and> isAvailable idle3 \<and> 0 < availableSpots idle3 \<and> \<not> isPending idle3
   \<and> uncaught idle3 = None
   \<and> optimisticSpots (click idle3) = 2
   \<and> RegisterButton (click idle3) = Registrado \<and> shown (click idle3) = Button Registrado
   \<and> isPending (click idle3)
   \<and> optimistic (settle (Inr r_full) (click idle3)) = 0
   \<and> RegisterButton (settle (Inr r_full) (click idle3)) \<noteq> RegisterButton (click idle3)"
proof -
  have h: "optimistic idle3 = 0" "isAvailable idle3" "0 < availableSpots idle3"
    "\<not> isPending idle3" "uncaught idle3 = None"
    by (simp_all add: idle3_def)
  have a: "availableSpots idle3 = 3" by (simp add: idle3_def)
  have z: "optimistic (settle (Inr r_full) (click idle3)) = 0" by (rule optimistic_settle)
  note t = registrado_is_speculative [OF h, of "settle (Inr r_full) (click idle3)"]
  from t have 1: "optimisticSpots (click idle3) = max 0 (availableSpots idle3 - 1)" by blast
  from t have 2: "RegisterButton (click idle3) = Registrado" by blast
  from t have 3: "isPending (click idle3)" by blast
  from t have 4: "shown (click idle3) = Button Registrado" by blast
  from t z have 5: "RegisterButton (settle (Inr r_full) (click idle3))
                      \<noteq> RegisterButton (click idle3)" by blast
  show ?thesis using h a z 1 2 3 4 5 by simp
qed

text \<open>
  Claim C7 as stated fails: with three free places the click starts the
  transition, nothing has come back from the server (the call is pending and the
  console is empty), and the component already renders \<open>Registrado\<close>.
\<close>

theorem registrado_before_confirmation_counterexample:
  "RegisterButton idle3 = Register False (Registrarme 3)
   \<and> click idle3 = handleRegister idle3
   \<and> isPending (click idle3)
   \<and> console (click idle3) = []
   \<and> RegisterButton (click idle3) = Registrado"
  by (simp add: idle3_def click_def handleRegister_def RegisterButton_def showRegistered_def
      canRegister_def optimisticSpots_def reducer_def)

text \<open>
  Claim C8, as amended. When the server action returns a failing result (one with
  \<open>success\<close> false, as for \<open>AlreadyRegistered\<close> or \<open>EventFull\<close>), the optimistic
  decrement is dropped: \<open>optimisticSpots\<close> is again the unchanged
  \<open>availableSpots\<close> and the transition is over. The message of the result is
  written to the console; the rendered button is the one of the settled
  component, whatever the failure was. When the call itself is rejected, the
  handler does not catch the error and the error page takes the place of the
  button.
\<close>

theorem failure_rolls_back:
  assumes "\<not> success r"
  shows "optimisticSpots (settle (Inr r) b) = availableSpots b
       \<and> availableSpots (settle (Inr r) b) = availableSpots b
       \<and> \<not> isPending (settle (Inr r) b)
       \<and> RegisterButton (settle (Inr r) b)
           = RegisterButton (b\<lparr>isPending := False, optimistic := 0\<rparr>)
       \<and> shown (settle (Inr r) b) = shown (b\<lparr>isPending := False, optimistic := 0\<rparr>)
       \<and> console (settle (Inr r) b) = console b @ [[''Error al registrar:'', message r]]
       \<and> shown (settle (Inl error) b) = ErrorPage error"
proof -
  have rb: "RegisterButton (settle (Inr r) b)
              = RegisterButton (b\<lparr>isPending := False, optimistic := 0\<rparr>)"
    using assms
    by (simp add: settle_def RegisterButton_def showRegistered_def canRegister_def
        optimisticSpots_def)
  have "uncaught (settle (Inr r) b) = uncaught (b\<lparr>isPending := False, optimistic := 0\<rparr>)"
    by (simp add: settle_def)
  with rb have sh: "shown (settle (Inr r) b)
                      = shown (b\<lparr>isPending := False, optimistic := 0\<rparr>)"
    by (simp add: shown_def split: option.splits)
  have ep: "shown (settle (Inl error) b) = ErrorPage error"
    by (simp add: settle_def shown_def)
  have rest: "optimisticSpots (settle (Inr r) b) = availableSpots b
       \<and> availableSpots (settle (Inr r) b) = availableSpots b
       \<and> \<not> isPending (settle (Inr r) b)
       \<and> console (settle (Inr r) b) = console b @ [[''Error al registrar:'', message r]]"
    using assms by (simp add: settle_def optimisticSpots_def)
  from rb sh ep rest show ?thesis by simp
qed

theorem failure_rolls_back_witness:
  "\<not> success r_full
   \<and> optimisticSpots (click idle3) = 2
   \<and> optimisticSpots (settle (Inr r_full) (click idle3)) = 3
   \<and> RegisterButton (settle (Inr r_full) (click idle3)) = Register False (Registrarme 3)
   \<and> shown (settle (Inr r_full) (click idle3)) = Button (Register False (Registrarme 3))
   \<and> console (settle (Inr r_full) (click idle3)) = [[''Error al registrar:'', msg_full]]
   \<and> shown (settle (Inl (Error ''Failed to fetch'')) (click idle3))
       = ErrorPage (Error ''Failed to fetch'')"
proof -
  have h: "\<not> success r_full" by (simp add: r_full_def failure_def)
  have c: "click idle3 = idle3\<lparr>isPending := True, optimistic := 1\<rparr>"
    by (simp add: idle3_def click_def handleRegister_def RegisterButton_def showRegistered_def
      canRegister_def optimisticSpots_def reducer_def)
  have o: "optimisticSpots (click idle3) = 2"
    unfolding c by (simp add: idle3_def optimisticSpots_def reducer_def)
  have a: "availableSpots (click idle3) = 3" "console (click idle3) = []"
    unfolding c by (simp_all add: idle3_def)
  have v: "RegisterButton (click idle3\<lparr>isPending := False, optimistic := 0\<rparr>)
             = Register False (Registrarme 3)"
    unfolding c
    by (simp add: idle3_def RegisterButton_def showRegistered_def
      canRegister_def optimisticSpots_def reducer_def)
  have u: "uncaught (click idle3) = None"
    unfolding c by (simp add: idle3_def)
  have w: "shown (click idle3\<lparr>isPending := False, optimistic := 0\<rparr>)
             = Button (Register False (Registrarme 3))"
    using v u by (simp add: shown_def)
  have m: "message r_full = msg_full" by (simp add: r_full_def failure_def)
  note t = failure_rolls_back [OF h, of "click idle3" "Error ''Failed to fetch''"]
  from t have 1: "optimisticSpots (settle (Inr r_full) (click idle3)) = availableSpots (click idle3)"
    by blast
  from t have 2: "RegisterButton (settle (Inr r_full) (click idle3))
                    = RegisterButton (click idle3\<lparr>isPending := False, optimistic := 0\<rparr>)"
    by blast
  from t have 3: "console (settle (Inr r_full) (click idle3))
                    = console (click idle3) @ [[''Error al registrar:'', message r_full]]"
    by blast
  from t have 4: "shown (settle (Inr r_full) (click idle3))
                    = shown (click idle3\<lparr>isPending := False, optimistic := 0\<rparr>)"
    by blast
  from t have 5: "shown (settle (Inl (Error ''Failed to fetch'')) (click idle3))
                    = ErrorPage (Error ''Failed to fetch'')"
    by blast
  show ?thesis using h o a v w m 1 2 3 4 5 by simp
qed

text \<open>
  Claim C8 as stated fails in its second half: after \<open>EventFull\<close> and after
  \<open>AlreadyRegistered\<close>, two failures with different messages, the component
  renders the same view, the one it rendered before the click. And after a
  rejected call (a network failure) the button is not on the screen at all.
\<close>

theorem failure_reason_not_shown_counterexample:
  "failed (Inr r_full) \<and> failed (Inr r_already) \<and> message r_full \<noteq> message r_already
   \<and> RegisterButton (settle (Inr r_full) (click idle3)) = Register False (Registrarme 3)
   \<and> RegisterButton (settle (Inr r_already) (click idle3)) = Register False (Registrarme 3)
   \<and> RegisterButton idle3 = Register False (Registrarme 3)
   \<and> failed (Inl (Error ''Failed to fetch''))
   \<and> shown (settle (Inl (Error ''Failed to fetch'')) (click idle3))
       = ErrorPage (Error ''Failed to fetch'')"
  by (simp add: idle3_def click_def handleRegister_def RegisterButton_def showRegistered_def
      canRegister_def optimisticSpots_def reducer_def settle_def failed_def r_full_def
      failure_def r_already_def msg_full_def msg_already_def shown_def)

section \<open>The server action\<close>

lemma validateAuth_cookie:
  "validateAuth env None =
     (case cookie env of None \<Rightarrow> None
      | Some t \<Rightarrow> if t = [] then None
                  else (case verifyIdToken env t of Inl e \<Rightarrow> None | Inr uid \<Rightarrow> Some uid))"
  by (simp add: validateAuth_def falsy_def)

lemma demo_env_auth: "validateAuth demo_env None = Some ''bob''"
  by (simp add: validateAuth_def demo_env_def falsy_def)

text \<open>
  Claim C10. \<open>registerForEventAction\<close> always returns a \<open>FormState\<close> and lets no
  exception out (reading the cookie store is taken to succeed). Without
  authentication (no cookie, an empty one, or a token that \<open>verifyIdToken\<close>
  rejects) it returns \<open>authError\<close> and leaves the store alone; an exception of the
  data layer becomes a failing result with the exception's message (or
  \<open>'Error al registrarse'\<close> when that is empty); \<open>null\<close> becomes the generic
  failing result; and \<open>success\<close> is true exactly when the data layer returned an
  event, which is then the result's data.
\<close>

theorem action_total:
  "\<exists>fs. fst (registerForEventAction env s i) = Inr fs
     \<and> (success fs \<longleftrightarrow>
          (\<exists>uid ev. validateAuth env None = Some uid
                   \<and> fst (registerInDb s i (Some uid)) = Inr (Some ev) \<and> payload fs = Some ev))
     \<and> (validateAuth env None = None \<longrightarrow> fs = authError \<and> snd (registerForEventAction env s i) = s)
     \<and> (\<forall>uid m. validateAuth env None = Some uid \<and> fst (registerInDb s i (Some uid)) = Inl (Error m)
           \<longrightarrow> fs = failure (if m = [] then ''Error al registrarse'' else m))
     \<and> (\<forall>uid. validateAuth env None = Some uid \<and> fst (registerInDb s i (Some uid)) = Inr None
           \<longrightarrow> fs = generic_failure)
     \<and> (validateAuth env None = None \<longleftrightarrow>
          (falsy (cookie env) \<or> (\<exists>t. cookie env = Some t \<and> isl (verifyIdToken env t))))"
proof (cases "validateAuth env None")
  case None
  have "validateAuth env None = None \<longleftrightarrow>
          (falsy (cookie env) \<or> (\<exists>t. cookie env = Some t \<and> isl (verifyIdToken env t)))"
    by (auto simp: validateAuth_cookie falsy_def split: option.splits sum.splits)
  with None show ?thesis
    by (simp add: registerForEventAction_def authError_def)
next
  case (Some uid)
  have a: "validateAuth env None = None \<longleftrightarrow>
          (falsy (cookie env) \<or> (\<exists>t. cookie env = Some t \<and> isl (verifyIdToken env t)))"
    by (auto simp: validateAuth_cookie falsy_def split: option.splits sum.splits)
  obtain r s' where d: "registerInDb s i (Some uid) = (r, s')" by fastforce
  show ?thesis
  proof (cases r)
    case (Inl err)
    then obtain m where "r = Inl (Error m)" by (cases err) simp
    with Some d a show ?thesis
      by (simp add: registerForEventAction_def failure_def)
  next
    case (Inr ev)
    with Some d a show ?thesis
      by (cases ev) (simp_all add: registerForEventAction_def generic_failure_def failure_def)
  qed
qed

theorem action_total_witness:
  "validateAuth demo_env None = Some ''bob''
   \<and> fst (registerInDb demo ''full'' (Some ''bob'')) = Inl (Error msg_full)
   \<and> fst (registerForEventAction demo_env demo ''full'') = Inr (failure msg_full)
   \<and> validateAuth (demo_env\<lparr>cookie := None\<rparr>) None = None
   \<and> registerForEventAction (demo_env\<lparr>cookie := None\<rparr>) demo ''open'' = (Inr authError, demo)"
proof -
  have h1: "validateAuth demo_env None = Some ''bob''" by (rule demo_env_auth)
  have h2: "fst (registerInDb demo ''full'' (Some ''bob'')) = Inl (Error msg_full)"
    by (simp add: registerInDb_def registerForEvent_def demo_def full_doc_def or0_def Let_def
        msg_path_def)
  have h3: "validateAuth (demo_env\<lparr>cookie := None\<rparr>) None = None"
    by (simp add: validateAuth_def falsy_def)
  have n: "msg_full \<noteq> []" by (simp add: msg_full_def)
  from action_total [of demo_env demo "''full''"] h1 h2 n
  have 1: "fst (registerForEventAction demo_env demo ''full'') = Inr (failure msg_full)"
    by auto
  from action_total [of "demo_env\<lparr>cookie := None\<rparr>" demo "''open''"] h3
  have 2: "registerForEventAction (demo_env\<lparr>cookie := None\<rparr>) demo ''open'' = (Inr authError, demo)"
    by (auto simp: prod_eq_iff)
  show ?thesis using h1 h2 h3 1 2 by simp
qed




end
